theory Spec2Isabelle
  imports Main "HOL-Library.Sublist"
begin

section \<open>Condition evaluation (src/lib/server/cond_eval.c)\<close>

text \<open>
  A shallow embedding of the condition evaluator. The build modelled is the one the file
  selects: \<^verbatim>\<open>WITH_REALIZE_TMPL\<close> is defined in the file itself, \<^verbatim>\<open>HAVE_REGEX\<close> is taken
  as defined, and \<^verbatim>\<open>fr_assert\<close> is compiled out (\<^verbatim>\<open>NDEBUG\<close>), so that an assertion
  followed by an error return is the error return. \<^verbatim>\<open>fr_cond_assert\<close> evaluates to its
  condition. Return codes are C \<^verbatim>\<open>int\<close>s: 1 is "match", 0 is "no match", a negative
  value is a failure.
\<close>

subsection \<open>Data model\<close>

datatype fr_type_t =
    FR_TYPE_INVALID
  | FR_TYPE_STRING
  | FR_TYPE_OCTETS
  | FR_TYPE_IPV4_ADDR
  | FR_TYPE_BOOL
  | FR_TYPE_UINT32
  | FR_TYPE_UINT64

datatype fr_token_t =
    T_OP_CMP_EQ
  | T_OP_NE
  | T_OP_LT
  | T_OP_LE
  | T_OP_GT
  | T_OP_GE
  | T_OP_REG_EQ
  | T_OP_REG_NE

datatype tmpl_type_t =
    TMPL_TYPE_UNINITIALISED
  | TMPL_TYPE_NULL
  | TMPL_TYPE_DATA
  | TMPL_TYPE_ATTR
  | TMPL_TYPE_LIST
  | TMPL_TYPE_EXEC
  | TMPL_TYPE_XLAT
  | TMPL_TYPE_REGEX
  | TMPL_TYPE_REGEX_UNCOMPILED
  | TMPL_TYPE_REGEX_XLAT
  | TMPL_TYPE_UNRESOLVED
  | TMPL_TYPE_ATTR_UNRESOLVED
  | TMPL_TYPE_EXEC_UNRESOLVED
  | TMPL_TYPE_XLAT_UNRESOLVED
  | TMPL_TYPE_REGEX_XLAT_UNRESOLVED
  | TMPL_TYPE_MAX

datatype fr_cond_type_t =
    COND_TYPE_INVALID
  | COND_TYPE_TRUE
  | COND_TYPE_FALSE
  | COND_TYPE_TMPL
  | COND_TYPE_RCODE
  | COND_TYPE_MAP
  | COND_TYPE_AND
  | COND_TYPE_OR
  | COND_TYPE_CHILD

datatype fr_cond_pass2_t =
    PASS2_FIXUP_NONE
  | PASS2_FIXUP_ATTR
  | PASS2_FIXUP_TYPE
  | PASS2_PAIRCOMPARE

text \<open>
  The escape callback handed to the expansion engine: \<^verbatim>\<open>NULL\<close> or the file's
  \<^verbatim>\<open>regex_escape\<close>.
\<close>

datatype xlat_escape_legacy_t = NO_ESCAPE | REGEX_ESCAPE

text \<open>
  A value box: its type tag and the members of the datum the evaluator reads.
  \<^verbatim>\<open>vb_length\<close> is the length of \<open>vb_strvalue\<close>; a string holds no NUL byte.
\<close>

record fr_value_box =
  vb_type :: fr_type_t
  vb_strvalue :: string
  vb_uint64 :: nat

record fr_dict_attr =
  da_name :: string
  da_type :: fr_type_t

type_synonym regex_t = string

type_synonym fr_regmatch_t = "string list"

record tmpl =
  tmpl_type :: tmpl_type_t
  tmpl_name :: string
  tmpl_cast :: fr_type_t
  tmpl_da :: fr_dict_attr
  tmpl_value :: fr_value_box
  tmpl_regex :: regex_t
  tmpl_regex_flags :: nat

record map_t =
  map_lhs :: tmpl
  map_op :: fr_token_t
  map_rhs :: tmpl

record fr_pair =
  pair_da :: fr_dict_attr
  pair_op :: fr_token_t
  pair_data :: fr_value_box

type_synonym rlm_rcode_t = nat

text \<open>
  A condition node. The links \<open>cond_next\<close>, \<open>cond_parent\<close> and \<open>cond_child\<close> are
  pointers: an address of the node store, or \<open>None\<close> for \<^verbatim>\<open>NULL\<close>. The members of the
  \<^verbatim>\<open>data\<close> union are separate fields.
\<close>

record fr_cond =
  cond_type :: fr_cond_type_t
  cond_negate :: bool
  cond_pass2_fixup :: fr_cond_pass2_t
  cond_next :: "nat option"
  cond_parent :: "nat option"
  cond_vpt :: tmpl
  cond_map :: map_t
  cond_rcode :: rlm_rcode_t
  cond_child :: "nat option"

type_synonym cond_store = "nat \<Rightarrow> fr_cond"

text \<open>
  The request: its attribute pairs, its regex capture slots (empty when cleared), and
  whatever else of the server the expansion engine may read or change.
\<close>

record 'x request =
  request_pairs :: "fr_pair list"
  regex_captures :: "string list"
  request_data :: 'x

subsection \<open>Collaborators\<close>

text \<open>
  The functions the evaluator calls that live elsewhere in the server. Each is a
  parameter; a call that may change the request returns the new request.
  \<^item> \<open>tmpl_find_vp\<close>: 0 when a matching pair exists.
  \<^item> \<open>tmpl_aexpand\<close>, \<open>tmpl_aexpand_box\<close>: the expansion with a \<^verbatim>\<open>char *\<close> and with a
    value box as output; the integer is the length, negative on failure.
  \<^item> \<open>tmpl_cursor_init\<close>: the code written through its \<^verbatim>\<open>err\<close> argument and the values
    of the matching pairs in cursor order, as \<^verbatim>\<open>fr_cursor_next\<close> will yield them (the pairs
    of the request do not change while a cursor is open).
  \<^item> \<open>fr_value_box_cast\<close>, \<open>fr_value_box_cast_in_place\<close>: \<open>None\<close> is a negative return.
  \<^item> \<open>fr_value_box_cmp_op\<close>: operands are pointers, \<open>None\<close> for \<^verbatim>\<open>NULL\<close>.
  \<^item> \<open>regex_compile\<close>: the length consumed (not positive on failure) and the handle.
  \<^item> \<open>regex_exec\<close>: the return code and the match data it filled in.
  \<^item> \<open>paircmp\<close>: called with the attribute, operator and value of the one pair of the
    check list.
  \<^item> \<open>REQUEST_MAX_REGEX\<close>: the constant of that name.
\<close>

record 'x cond_env =
  tmpl_find_vp :: "tmpl \<Rightarrow> 'x request \<Rightarrow> int"
  tmpl_aexpand :: "tmpl \<Rightarrow> xlat_escape_legacy_t \<Rightarrow> 'x request \<Rightarrow> int \<times> string \<times> 'x request"
  tmpl_aexpand_box :: "tmpl \<Rightarrow> xlat_escape_legacy_t \<Rightarrow> 'x request \<Rightarrow> int \<times> fr_value_box \<times> 'x request"
  tmpl_cursor_init :: "tmpl \<Rightarrow> 'x request \<Rightarrow> int \<times> fr_value_box list"
  fr_value_box_cast :: "fr_type_t \<Rightarrow> fr_value_box \<Rightarrow> fr_value_box option"
  fr_value_box_cast_in_place :: "fr_type_t \<Rightarrow> fr_dict_attr option \<Rightarrow> fr_value_box \<Rightarrow> fr_value_box option"
  fr_value_box_cmp_op :: "fr_token_t \<Rightarrow> fr_value_box option \<Rightarrow> fr_value_box option \<Rightarrow> int"
  regex_compile :: "string \<Rightarrow> nat \<Rightarrow> int \<times> regex_t"
  regex_subcapture_count :: "regex_t \<Rightarrow> nat"
  regex_exec :: "regex_t \<Rightarrow> string \<Rightarrow> nat \<Rightarrow> int \<times> fr_regmatch_t"
  paircmp :: "fr_dict_attr \<Rightarrow> fr_token_t \<Rightarrow> fr_value_box option \<Rightarrow> 'x request \<Rightarrow> int \<times> 'x request"
  REQUEST_MAX_REGEX :: nat

text \<open>
  Modelled from the spec: \<^verbatim>\<open>regex_sub_to_request\<close> is not part of this file. With a
  match it publishes the captured substrings into the request's capture slots, replacing
  what was there; called with \<^verbatim>\<open>NULL\<close> it clears the slots.
\<close>

definition regex_sub_to_request :: "'x request \<Rightarrow> (regex_t \<times> fr_regmatch_t) option \<Rightarrow> 'x request" where
  "regex_sub_to_request request m =
     (case m of
        None \<Rightarrow> request\<lparr>regex_captures := []\<rparr>
      | Some (preg, regmatch) \<Rightarrow> request\<lparr>regex_captures := regmatch\<rparr>)"

text \<open>\<^verbatim>\<open>fr_value_box_bstrndup_shallow\<close>: a string box around an expansion's buffer.\<close>

definition fr_value_box_bstrndup_shallow :: "string \<Rightarrow> fr_value_box" where
  "fr_value_box_bstrndup_shallow p = \<lparr>vb_type = FR_TYPE_STRING, vb_strvalue = p, vb_uint64 = 0\<rparr>"

text \<open>
  The expansion engine returns an \<^verbatim>\<open>ssize_t\<close>. Where a function whose return type is
  \<^verbatim>\<open>int\<close> returns such a value (\<^verbatim>\<open>return ret\<close>), the value is converted to \<^verbatim>\<open>int\<close>: it
  is taken modulo \<open>2^32\<close> and read as a signed 32-bit integer.
\<close>

definition int_of_ssize_t :: "int \<Rightarrow> int" where
  "int_of_ssize_t ret = (ret + 2147483648) mod 4294967296 - 2147483648"

subsection \<open>all_digits\<close>

definition isdigit :: "char \<Rightarrow> bool" where
  "isdigit ch = (48 \<le> (of_char ch :: nat) \<and> (of_char ch :: nat) \<le> 57)"

text \<open>The loop \<^verbatim>\<open>while (isdigit(*p)) p++\<close>: what is left of the string when it stops.\<close>

fun skip_digits :: "string \<Rightarrow> string" where
  "skip_digits [] = []"
| "skip_digits (ch # p) = (if isdigit ch then skip_digits p else ch # p)"

definition all_digits :: "string \<Rightarrow> bool" where
  "all_digits str =
     (case str of
        [] \<Rightarrow> False
      | ch # p \<Rightarrow> skip_digits (if ch = CHR ''-'' then p else ch # p) = [])"

subsection \<open>cond_eval_tmpl\<close>

definition cond_eval_tmpl_expand :: "'x cond_env \<Rightarrow> 'x request \<Rightarrow> tmpl \<Rightarrow> int \<times> 'x request" where
  "cond_eval_tmpl_expand env request vpt =
     (case tmpl_aexpand env vpt NO_ESCAPE request of
        (slen, p, request') \<Rightarrow>
          if slen < 0 then (0, request')
          else if slen = 0 then (0, request')
          else (1, request'))"

definition cond_eval_tmpl :: "'x cond_env \<Rightarrow> 'x request \<Rightarrow> int \<Rightarrow> tmpl \<Rightarrow> int \<times> 'x request" where
  "cond_eval_tmpl env request depth vpt =
     (case tmpl_type vpt of
        TMPL_TYPE_ATTR \<Rightarrow> (if tmpl_find_vp env vpt request = 0 then (1, request) else (0, request))
      | TMPL_TYPE_LIST \<Rightarrow> (if tmpl_find_vp env vpt request = 0 then (1, request) else (0, request))
      | TMPL_TYPE_XLAT \<Rightarrow> cond_eval_tmpl_expand env request vpt
      | TMPL_TYPE_EXEC \<Rightarrow> cond_eval_tmpl_expand env request vpt
      | _ \<Rightarrow> (0, request))"

subsection \<open>cond_do_regex\<close>

text \<open>
  The pattern to run: the template's compiled regex, or the right operand compiled now.
  \<open>None\<close> is the \<^verbatim>\<open>return -1\<close> of a failed assertion or a failed compilation.
\<close>

definition cond_do_regex_preg :: "'x cond_env \<Rightarrow> map_t \<Rightarrow> fr_value_box option \<Rightarrow> regex_t option" where
  "cond_do_regex_preg env mp rhs =
     (case tmpl_type (map_rhs mp) of
        TMPL_TYPE_REGEX \<Rightarrow> Some (tmpl_regex (map_rhs mp))
      | _ \<Rightarrow>
         (case rhs of
            None \<Rightarrow> None
          | Some r \<Rightarrow>
              if vb_type r \<noteq> FR_TYPE_STRING then None
              else (case regex_compile env (vb_strvalue r) (tmpl_regex_flags (map_rhs mp)) of
                      (slen, rreg) \<Rightarrow> if slen \<le> 0 then None else Some rreg)))"

definition cond_do_regex ::
  "'x cond_env \<Rightarrow> 'x request \<Rightarrow> fr_cond \<Rightarrow> fr_value_box option \<Rightarrow> fr_value_box option \<Rightarrow> int \<times> 'x request" where
  "cond_do_regex env request c lhs rhs =
     (case lhs of
        None \<Rightarrow> (- 1, request)
      | Some l \<Rightarrow>
          if vb_type l \<noteq> FR_TYPE_STRING then (- 1, request)
          else
            (case cond_do_regex_preg env (cond_map c) rhs of
               None \<Rightarrow> (- 1, request)
             | Some preg \<Rightarrow>
                 (let n = regex_subcapture_count env preg;
                      subcaptures = (if n = 0 then REQUEST_MAX_REGEX env + 1 else n)
                  in case regex_exec env preg (vb_strvalue l) subcaptures of
                       (ret, regmatch) \<Rightarrow>
                         if ret = 0 then (ret, regex_sub_to_request request None)
                         else if ret = 1 then (ret, regex_sub_to_request request (Some (preg, regmatch)))
                         else (ret, request))))"

subsection \<open>cond_cmp_values\<close>

definition cond_cmp_values ::
  "'x cond_env \<Rightarrow> 'x request \<Rightarrow> fr_cond \<Rightarrow> fr_value_box option \<Rightarrow> fr_value_box option \<Rightarrow> int \<times> 'x request" where
  "cond_cmp_values env request c lhs rhs =
     (let mp = cond_map c in
      if map_op mp = T_OP_REG_EQ then cond_do_regex env request c lhs rhs
      else if cond_pass2_fixup c = PASS2_PAIRCOMPARE then
        (case paircmp env (tmpl_da (map_lhs mp)) (map_op mp) rhs request of
           (rcode, request') \<Rightarrow> ((if rcode = 0 then 1 else 0), request'))
      else (fr_value_box_cmp_op env (map_op mp) lhs rhs, request))"

subsection \<open>cond_realize_tmpl\<close>

text \<open>
  The type an expanded template is cast to, with the dictionary attribute handed to the
  cast. \<^verbatim>\<open>other->cast\<close> is tested for being non-zero, and \<open>FR_TYPE_INVALID\<close> is the zero
  of the enumeration.
\<close>

definition cond_realize_cast_type :: "tmpl \<Rightarrow> tmpl \<Rightarrow> fr_type_t \<times> fr_dict_attr option" where
  "cond_realize_cast_type tin other =
     (if tmpl_cast tin \<noteq> FR_TYPE_INVALID then (tmpl_cast tin, None)
      else if tmpl_cast other \<noteq> FR_TYPE_INVALID then (tmpl_cast other, None)
      else if tmpl_type other = TMPL_TYPE_ATTR then (da_type (tmpl_da other), Some (tmpl_da other))
      else if tmpl_type other = TMPL_TYPE_DATA then (vb_type (tmpl_value other), None)
      else (FR_TYPE_STRING, None))"

definition cond_realize_expand ::
  "'x cond_env \<Rightarrow> 'x request \<Rightarrow> tmpl \<Rightarrow> tmpl \<Rightarrow> xlat_escape_legacy_t \<Rightarrow> int \<times> fr_value_box option \<times> 'x request" where
  "cond_realize_expand env request tin other escape =
     (case tmpl_aexpand_box env tin escape request of
        (ret, box, request') \<Rightarrow>
          if ret < 0 then (int_of_ssize_t ret, None, request')
          else
            (case cond_realize_cast_type tin other of
               (cast_type, da) \<Rightarrow>
                 if cast_type \<noteq> vb_type box then
                   (case fr_value_box_cast_in_place env cast_type da box of
                      None \<Rightarrow> (- 1, None, request')
                    | Some box' \<Rightarrow> (0, Some box', request'))
                 else (0, Some box, request')))"

text \<open>The result is the return code, the box left in \<^verbatim>\<open>*out\<close>, and the request.\<close>

definition cond_realize_tmpl ::
  "'x cond_env \<Rightarrow> 'x request \<Rightarrow> tmpl \<Rightarrow> tmpl \<Rightarrow> int \<times> fr_value_box option \<times> 'x request" where
  "cond_realize_tmpl env request tin other =
     (case tmpl_type tin of
        TMPL_TYPE_LIST \<Rightarrow> (0, None, request)
      | TMPL_TYPE_REGEX \<Rightarrow> (0, None, request)
      | TMPL_TYPE_ATTR \<Rightarrow> (0, None, request)
      | TMPL_TYPE_DATA \<Rightarrow> (0, Some (tmpl_value tin), request)
      | TMPL_TYPE_REGEX_XLAT \<Rightarrow> cond_realize_expand env request tin other REGEX_ESCAPE
      | TMPL_TYPE_EXEC \<Rightarrow> cond_realize_expand env request tin other NO_ESCAPE
      | TMPL_TYPE_XLAT \<Rightarrow> cond_realize_expand env request tin other NO_ESCAPE
      | _ \<Rightarrow> (- 1, None, request))"

subsection \<open>cond_normalise_and_cmp\<close>

text \<open>The choice of \<^verbatim>\<open>cast_type\<close> that opens the function.\<close>

definition cond_normalise_cast_type :: "fr_cond \<Rightarrow> fr_type_t" where
  "cond_normalise_cast_type c =
     (let mp = cond_map c in
      if map_op mp = T_OP_REG_EQ then FR_TYPE_STRING
      else if cond_pass2_fixup c = PASS2_PAIRCOMPARE then da_type (tmpl_da (map_lhs mp))
      else if tmpl_cast (map_lhs mp) \<noteq> FR_TYPE_INVALID then tmpl_cast (map_lhs mp)
      else if tmpl_type (map_lhs mp) = TMPL_TYPE_ATTR then da_type (tmpl_da (map_lhs mp))
      else if tmpl_type (map_rhs mp) = TMPL_TYPE_ATTR then da_type (tmpl_da (map_rhs mp))
      else if tmpl_type (map_lhs mp) = TMPL_TYPE_DATA then vb_type (tmpl_value (map_lhs mp))
      else if tmpl_type (map_rhs mp) = TMPL_TYPE_DATA then vb_type (tmpl_value (map_rhs mp))
      else FR_TYPE_INVALID)"

definition cond_normalise_escape :: "fr_cond \<Rightarrow> xlat_escape_legacy_t" where
  "cond_normalise_escape c =
     (if map_op (cond_map c) = T_OP_REG_EQ \<and> tmpl_type (map_rhs (cond_map c)) = TMPL_TYPE_REGEX_XLAT
      then REGEX_ESCAPE else NO_ESCAPE)"

text \<open>The macro \<^verbatim>\<open>CHECK_INT_CAST\<close>: the value of \<^verbatim>\<open>cast_type\<close> after it.\<close>

definition CHECK_INT_CAST :: "fr_type_t \<Rightarrow> fr_value_box option \<Rightarrow> fr_value_box option \<Rightarrow> fr_type_t" where
  "CHECK_INT_CAST cast_type lhs rhs =
     (case lhs of
        None \<Rightarrow> cast_type
      | Some l \<Rightarrow>
         (case rhs of
            None \<Rightarrow> cast_type
          | Some r \<Rightarrow>
              if cast_type = FR_TYPE_INVALID \<and> vb_type l = FR_TYPE_STRING \<and> vb_type r = FR_TYPE_STRING
                 \<and> all_digits (vb_strvalue l) \<and> all_digits (vb_strvalue r)
              then FR_TYPE_UINT64 else cast_type))"

text \<open>
  The macro \<^verbatim>\<open>CAST\<close>: the operand after it, or \<open>None\<close> when the cast fails and the
  function leaves through \<^verbatim>\<open>finish\<close> with -1.
\<close>

definition CAST :: "'x cond_env \<Rightarrow> fr_type_t \<Rightarrow> fr_value_box option \<Rightarrow> fr_value_box option option" where
  "CAST env cast_type operand =
     (case operand of
        None \<Rightarrow> Some None
      | Some b \<Rightarrow>
          if cast_type \<noteq> FR_TYPE_INVALID \<and> vb_type b \<noteq> FR_TYPE_INVALID \<and> cast_type \<noteq> vb_type b then
            (case fr_value_box_cast env cast_type b of
               None \<Rightarrow> None
             | Some b' \<Rightarrow> Some (Some b'))
          else Some (Some b))"

text \<open>
  The sequence \<^verbatim>\<open>CHECK_INT_CAST(lhs, rhs); CAST(lhs); CAST(rhs); rcode = cond_cmp_values(...)\<close>
  that the attribute, data and expansion cases share. \<open>None\<close> is a failed cast; otherwise
  the result holds the return code, the request, and the \<^verbatim>\<open>cast_type\<close> and \<^verbatim>\<open>lhs\<close>
  variables as the sequence leaves them.
\<close>

definition cond_cast_and_cmp ::
  "'x cond_env \<Rightarrow> 'x request \<Rightarrow> fr_cond \<Rightarrow> fr_type_t \<Rightarrow> fr_value_box option \<Rightarrow> fr_value_box option
     \<Rightarrow> (int \<times> 'x request \<times> fr_type_t \<times> fr_value_box option) option" where
  "cond_cast_and_cmp env request c cast_type lhs rhs =
     (let cast_type' = CHECK_INT_CAST cast_type lhs rhs in
      case CAST env cast_type' lhs of
        None \<Rightarrow> None
      | Some lhs' \<Rightarrow>
         (case CAST env cast_type' rhs of
            None \<Rightarrow> None
          | Some rhs' \<Rightarrow>
             (case cond_cmp_values env request c lhs' rhs' of
                (rcode, request') \<Rightarrow> Some (rcode, request', cast_type', lhs'))))"

text \<open>
  The loop over the instances of a right-hand attribute. The cursor is the list of values
  it will yield; \<^verbatim>\<open>rcode\<close> enters as the code \<^verbatim>\<open>tmpl_cursor_init\<close> wrote.
\<close>

fun cond_normalise_attr_loop ::
  "'x cond_env \<Rightarrow> 'x request \<Rightarrow> fr_cond \<Rightarrow> fr_value_box list \<Rightarrow> fr_type_t \<Rightarrow> fr_value_box option \<Rightarrow> int
     \<Rightarrow> int \<times> 'x request" where
  "cond_normalise_attr_loop env request c [] cast_type lhs rcode = (rcode, request)"
| "cond_normalise_attr_loop env request c (vp # vps) cast_type lhs rcode =
     (case cond_cast_and_cmp env request c cast_type lhs (Some vp) of
        None \<Rightarrow> (- 1, request)
      | Some (rcode', request', cast_type', lhs') \<Rightarrow>
          if rcode' \<noteq> 0 then (rcode', request')
          else cond_normalise_attr_loop env request' c vps cast_type' lhs' rcode')"

definition cond_normalise_and_cmp ::
  "'x cond_env \<Rightarrow> 'x request \<Rightarrow> fr_cond \<Rightarrow> fr_value_box option \<Rightarrow> int \<times> 'x request" where
  "cond_normalise_and_cmp env request c lhs =
     (let mp = cond_map c;
          cast_type = cond_normalise_cast_type c;
          escape = cond_normalise_escape c;
          expanded =
            (case tmpl_aexpand env (map_rhs mp) escape request of
               (ret, p, request') \<Rightarrow>
                 if ret < 0 then (- 1, request')
                 else
                   (case cond_cast_and_cmp env request' c cast_type lhs (Some (fr_value_box_bstrndup_shallow p)) of
                      None \<Rightarrow> (- 1, request')
                    | Some (rcode, request'', _, _) \<Rightarrow> (rcode, request'')))
      in case tmpl_type (map_rhs mp) of
           TMPL_TYPE_ATTR \<Rightarrow>
             (case tmpl_cursor_init env (map_rhs mp) request of
                (err, vps) \<Rightarrow> cond_normalise_attr_loop env request c vps cast_type lhs err)
         | TMPL_TYPE_DATA \<Rightarrow>
             (case cond_cast_and_cmp env request c cast_type lhs (Some (tmpl_value (map_rhs mp))) of
                None \<Rightarrow> (- 1, request)
              | Some (rcode, request', _, _) \<Rightarrow> (rcode, request'))
         | TMPL_TYPE_EXEC \<Rightarrow> expanded
         | TMPL_TYPE_XLAT \<Rightarrow> expanded
         | TMPL_TYPE_REGEX_XLAT \<Rightarrow> expanded
         | TMPL_TYPE_REGEX \<Rightarrow>
             (case CAST env cast_type lhs of
                None \<Rightarrow> (- 1, request)
              | Some lhs' \<Rightarrow> cond_cmp_values env request c lhs' None)
         | _ \<Rightarrow> (- 1, request))"

subsection \<open>cond_eval_map\<close>

text \<open>The loop over the instances of a left-hand attribute or list.\<close>

fun cond_eval_map_loop ::
  "'x cond_env \<Rightarrow> 'x request \<Rightarrow> fr_cond \<Rightarrow> fr_value_box list \<Rightarrow> int \<Rightarrow> int \<times> 'x request" where
  "cond_eval_map_loop env request c [] rcode = (rcode, request)"
| "cond_eval_map_loop env request c (vp # vps) rcode =
     (case cond_normalise_and_cmp env request c (Some vp) of
        (rcode', request') \<Rightarrow>
          if rcode' \<noteq> 0 then (rcode', request')
          else cond_eval_map_loop env request' c vps rcode')"

text \<open>The \<^verbatim>\<open>switch (map->lhs->type)\<close> reached when a side was not realized.\<close>

definition cond_eval_map_lhs :: "'x cond_env \<Rightarrow> 'x request \<Rightarrow> fr_cond \<Rightarrow> int \<times> 'x request" where
  "cond_eval_map_lhs env request c =
     (let mp = cond_map c;
          attr_or_list =
            (if cond_pass2_fixup c = PASS2_PAIRCOMPARE \<and> map_op mp \<noteq> T_OP_REG_EQ
             then cond_normalise_and_cmp env request c None
             else (case tmpl_cursor_init env (map_lhs mp) request of
                     (err, vps) \<Rightarrow> cond_eval_map_loop env request c vps err));
          expanded =
            (case tmpl_aexpand env (map_lhs mp) NO_ESCAPE request of
               (ret, p, request') \<Rightarrow>
                 if ret < 0 then (int_of_ssize_t ret, request')
                 else cond_normalise_and_cmp env request' c (Some (fr_value_box_bstrndup_shallow p)))
      in case tmpl_type (map_lhs mp) of
           TMPL_TYPE_LIST \<Rightarrow> attr_or_list
         | TMPL_TYPE_ATTR \<Rightarrow> attr_or_list
         | TMPL_TYPE_DATA \<Rightarrow> cond_normalise_and_cmp env request c (Some (tmpl_value (map_lhs mp)))
         | TMPL_TYPE_EXEC \<Rightarrow> expanded
         | TMPL_TYPE_XLAT \<Rightarrow> expanded
         | _ \<Rightarrow> (- 1, request))"

definition cond_eval_map :: "'x cond_env \<Rightarrow> 'x request \<Rightarrow> int \<Rightarrow> fr_cond \<Rightarrow> int \<times> 'x request" where
  "cond_eval_map env request depth c =
     (let mp = cond_map c in
      case cond_realize_tmpl env request (map_lhs mp) (map_rhs mp) of
        (ret1, lhs, request1) \<Rightarrow>
          if ret1 < 0 then (- 1, request1)
          else
            (case cond_realize_tmpl env request1 (map_rhs mp) (map_lhs mp) of
               (ret2, rhs, request2) \<Rightarrow>
                 if ret2 < 0 then (- 1, request2)
                 else if lhs \<noteq> None \<and> rhs \<noteq> None then
                   (if map_op mp \<noteq> T_OP_REG_EQ
                    then (fr_value_box_cmp_op env (map_op mp) lhs rhs, request2)
                    else cond_do_regex env request2 c lhs rhs)
                 else cond_eval_map_lhs env request2 c))"

subsection \<open>cond_eval\<close>

text \<open>
  The cases of the \<^verbatim>\<open>switch (c->type)\<close> that compute a result for the node. \<open>None\<close>
  is the \<^verbatim>\<open>default\<close> case, which returns -1 from \<^verbatim>\<open>cond_eval\<close>; the child case is
  part of the loop.
\<close>

definition cond_eval_node ::
  "'x cond_env \<Rightarrow> 'x request \<Rightarrow> rlm_rcode_t \<Rightarrow> int \<Rightarrow> fr_cond \<Rightarrow> (int \<times> 'x request) option" where
  "cond_eval_node env request modreturn depth c =
     (case cond_type c of
        COND_TYPE_TMPL \<Rightarrow> Some (cond_eval_tmpl env request depth (cond_vpt c))
      | COND_TYPE_RCODE \<Rightarrow> Some ((if cond_rcode c = modreturn then 1 else 0), request)
      | COND_TYPE_MAP \<Rightarrow> Some (cond_eval_map env request depth c)
      | COND_TYPE_TRUE \<Rightarrow> Some (1, request)
      | COND_TYPE_FALSE \<Rightarrow> Some (0, request)
      | _ \<Rightarrow> None)"

text \<open>\<^verbatim>\<open>if (c->negate) rcode = !rcode\<close>\<close>

definition cond_negated :: "fr_cond \<Rightarrow> int \<Rightarrow> int" where
  "cond_negated c rcode = (if cond_negate c then (if rcode = 0 then 1 else 0) else rcode)"

text \<open>
  What follows the negation in one pass of the loop: the \<^verbatim>\<open>while (!c->next)\<close> walk to
  the parent, entered also through \<^verbatim>\<open>goto return_to_parent\<close>, and the short-circuit
  switch. It ends with the \<^verbatim>\<open>return rcode\<close> taken at a \<^verbatim>\<open>NULL\<close> parent, or with the
  node (possibly \<^verbatim>\<open>NULL\<close>) and depth the outer loop goes on with. It does not return
  when the parent links form a cycle.
\<close>

datatype cond_advance = Returned | Moved "nat option" int

partial_function (option) cond_eval_advance :: "cond_store \<Rightarrow> nat \<Rightarrow> int \<Rightarrow> int \<Rightarrow> cond_advance option" where
  "cond_eval_advance h c rcode depth =
     (case cond_next (h c) of
        None \<Rightarrow>
          (case cond_parent (h c) of
             None \<Rightarrow> Some Returned
           | Some p \<Rightarrow> cond_eval_advance h p rcode (depth - 1))
      | Some n \<Rightarrow>
          (case cond_type (h n) of
             COND_TYPE_AND \<Rightarrow>
               if rcode = 0 then
                 (case cond_parent (h c) of
                    None \<Rightarrow> Some Returned
                  | Some p \<Rightarrow> cond_eval_advance h p rcode (depth - 1))
               else Some (Moved (cond_next (h n)) depth)
           | COND_TYPE_OR \<Rightarrow>
               if rcode \<noteq> 0 then
                 (case cond_parent (h c) of
                    None \<Rightarrow> Some Returned
                  | Some p \<Rightarrow> cond_eval_advance h p rcode (depth - 1))
               else Some (Moved (cond_next (h n)) depth)
           | _ \<Rightarrow> Some (Moved (Some n) depth)))"

text \<open>
  The loop \<^verbatim>\<open>while (c)\<close>. \<open>visited\<close> is not a variable of the source: it records, in
  order, the nodes the loop has dispatched on, and nothing reads it. The result is the
  value returned, the request, and that record; \<open>None\<close> means the loop does not return.
\<close>

partial_function (option) cond_eval_loop ::
  "'x cond_env \<Rightarrow> cond_store \<Rightarrow> rlm_rcode_t \<Rightarrow> 'x request \<Rightarrow> nat option \<Rightarrow> int \<Rightarrow> int \<Rightarrow> nat list
     \<Rightarrow> (int \<times> 'x request \<times> nat list) option" where
  "cond_eval_loop env h modreturn request c rcode depth visited =
     (case c of
        None \<Rightarrow> Some (rcode, request, visited)
      | Some a \<Rightarrow>
          if cond_type (h a) = COND_TYPE_CHILD then
            cond_eval_loop env h modreturn request (cond_child (h a)) rcode (depth + 1) (visited @ [a])
          else
            (case cond_eval_node env request modreturn depth (h a) of
               None \<Rightarrow> Some (- 1, request, visited @ [a])
             | Some (rcode1, request') \<Rightarrow>
                 if rcode1 < 0 then Some (rcode1, request', visited @ [a])
                 else
                   (case cond_eval_advance h a (cond_negated (h a) rcode1) depth of
                      None \<Rightarrow> None
                    | Some Returned \<Rightarrow> Some (cond_negated (h a) rcode1, request', visited @ [a])
                    | Some (Moved c' depth') \<Rightarrow>
                        cond_eval_loop env h modreturn request' c' (cond_negated (h a) rcode1) depth' (visited @ [a]))))"

text \<open>\<^verbatim>\<open>cond_eval\<close> starts the loop with \<^verbatim>\<open>rcode = -1\<close> and \<^verbatim>\<open>depth = 0\<close>.\<close>

definition cond_eval ::
  "'x cond_env \<Rightarrow> cond_store \<Rightarrow> 'x request \<Rightarrow> rlm_rcode_t \<Rightarrow> nat option \<Rightarrow> (int \<times> 'x request) option" where
  "cond_eval env h request modreturn c =
     map_option (\<lambda>(rcode, request', visited). (rcode, request'))
       (cond_eval_loop env h modreturn request c (- 1) 0 [])"

subsection \<open>Finite condition trees in the node store\<close>

text \<open>
  The shape of a condition tree: \<open>Node a child nxt\<close> is the node at address \<open>a\<close>, the
  chain below it (for a child node) and the rest of its own chain. \<open>cond_tree_at h parent c t\<close>
  says that the store holds the finite tree \<open>t\<close> at pointer \<open>c\<close>: the \<open>cond_next\<close> and
  \<open>cond_child\<close> links follow \<open>t\<close>, every node of a chain (a marker \<open>&&\<close> or \<open>||\<close> too) has
  the chain's enclosing child node as its parent, and the nodes of the outermost chain
  have none.
\<close>

datatype cond_tree = End | Node nat cond_tree cond_tree

fun cond_tree_at :: "cond_store \<Rightarrow> nat option \<Rightarrow> nat option \<Rightarrow> cond_tree \<Rightarrow> bool" where
  "cond_tree_at h parent c End = (c = None)"
| "cond_tree_at h parent c (Node a child nxt) =
     (c = Some a \<and> cond_parent (h a) = parent
      \<and> (if cond_type (h a) = COND_TYPE_CHILD
          then cond_tree_at h (Some a) (cond_child (h a)) child
          else child = End)
      \<and> cond_tree_at h parent (cond_next (h a)) nxt)"

text \<open>The nodes of a tree in pre-order; their number is the node count.\<close>

fun preorder :: "cond_tree \<Rightarrow> nat list" where
  "preorder End = []"
| "preorder (Node a child nxt) = a # preorder child @ preorder nxt"

text \<open>
  A position inside a tree, for the proofs: the enclosing child nodes from the innermost
  outwards, each with the rest of its own chain.
\<close>

type_synonym cond_ctx = "(nat \<times> cond_tree) list"

fun ctx_parent :: "cond_ctx \<Rightarrow> nat option" where
  "ctx_parent [] = None"
| "ctx_parent ((a, nxt) # K) = Some a"

fun cond_ctx_at :: "cond_store \<Rightarrow> cond_ctx \<Rightarrow> bool" where
  "cond_ctx_at h [] = True"
| "cond_ctx_at h ((a, nxt) # K) =
     (cond_parent (h a) = ctx_parent K
      \<and> cond_tree_at h (ctx_parent K) (cond_next (h a)) nxt
      \<and> cond_ctx_at h K)"

fun ctx_preorder :: "cond_ctx \<Rightarrow> nat list" where
  "ctx_preorder [] = []"
| "ctx_preorder ((a, nxt) # K) = preorder nxt @ ctx_preorder K"

text \<open>
  For the proofs about trees: the nodes of a tree's own chain; one step along the parent
  link of a pointer; and the nesting level of a pointer, the number of parent steps that
  lead from it to \<^verbatim>\<open>NULL\<close>.
\<close>

fun chain :: "cond_tree \<Rightarrow> nat list" where
  "chain End = []"
| "chain (Node a child nxt) = a # chain nxt"

definition cond_up :: "cond_store \<Rightarrow> nat option \<Rightarrow> nat option" where
  "cond_up h c = (case c of None \<Rightarrow> None | Some x \<Rightarrow> cond_parent (h x))"

definition cond_level :: "cond_store \<Rightarrow> nat \<Rightarrow> nat option \<Rightarrow> bool" where
  "cond_level h n c = ((cond_up h ^^ n) c = None \<and> (\<forall>m < n. (cond_up h ^^ m) c \<noteq> None))"


subsection \<open>Specification-side notions\<close>



subsection \<open>Example values\<close>

text \<open>
  A small environment to run the evaluator on: an expansion yields the template's own
  text and counts itself in the request (the text \<open>%{fail}\<close> fails); the cursor yields the
  values of the pairs of the template's attribute, with -1 when there is none; a cast to
  string keeps the text and any other cast fails; comparison is equality of boxes; a
  pattern matches the subject equal to it, and the pattern \<open>(\<close> makes execution fail;
  the pair comparator looks for an equal pair.
\<close>

definition ex_count :: "nat request \<Rightarrow> nat request" where
  "ex_count request = request\<lparr>request_data := Suc (request_data request)\<rparr>"

definition ex_expand_len :: "tmpl \<Rightarrow> int" where
  "ex_expand_len vpt = (if tmpl_name vpt = ''%{fail}'' then - 1 else int (length (tmpl_name vpt)))"

definition ex_cast :: "fr_type_t \<Rightarrow> fr_value_box \<Rightarrow> fr_value_box option" where
  "ex_cast ty b = (if ty = FR_TYPE_STRING then Some (b\<lparr>vb_type := FR_TYPE_STRING\<rparr>) else None)"

definition ex_cmp_op :: "fr_token_t \<Rightarrow> fr_value_box option \<Rightarrow> fr_value_box option \<Rightarrow> int" where
  "ex_cmp_op op a b =
     (case op of
        T_OP_CMP_EQ \<Rightarrow> (if a = b then 1 else 0)
      | T_OP_NE \<Rightarrow> (if a = b then 0 else 1)
      | _ \<Rightarrow> - 1)"

definition ex_env :: "nat cond_env" where
  "ex_env =
     \<lparr>tmpl_find_vp = (\<lambda>vpt request. if tmpl_da vpt \<in> pair_da ` set (request_pairs request) then 0 else - 1),
      tmpl_aexpand = (\<lambda>vpt escape request. (ex_expand_len vpt, tmpl_name vpt, ex_count request)),
      tmpl_aexpand_box = (\<lambda>vpt escape request.
         (ex_expand_len vpt, fr_value_box_bstrndup_shallow (tmpl_name vpt), ex_count request)),
      tmpl_cursor_init = (\<lambda>vpt request.
         (let vps = map pair_data (filter (\<lambda>p. pair_da p = tmpl_da vpt) (request_pairs request))
          in ((if vps = [] then - 1 else 0), vps))),
      fr_value_box_cast = ex_cast,
      fr_value_box_cast_in_place = (\<lambda>ty da b. ex_cast ty b),
      fr_value_box_cmp_op = ex_cmp_op,
      regex_compile = (\<lambda>pattern flags. (int (length pattern), pattern)),
      regex_subcapture_count = (\<lambda>preg. 0),
      regex_exec = (\<lambda>preg subject n.
         if preg = ''('' then (- 1, []) else if preg = subject then (1, [subject]) else (0, [])),
      paircmp = (\<lambda>da op v request.
         ((if \<exists>p \<in> set (request_pairs request). pair_da p = da \<and> Some (pair_data p) = v then 0 else 1), request)),
      REQUEST_MAX_REGEX = 32\<rparr>"

definition ex_box :: "string \<Rightarrow> fr_value_box" where
  "ex_box str = \<lparr>vb_type = FR_TYPE_STRING, vb_strvalue = str, vb_uint64 = 0\<rparr>"

definition ex_da :: "string \<Rightarrow> fr_type_t \<Rightarrow> fr_dict_attr" where
  "ex_da name ty = \<lparr>da_name = name, da_type = ty\<rparr>"

definition ex_tmpl :: "tmpl_type_t \<Rightarrow> string \<Rightarrow> tmpl" where
  "ex_tmpl ty name =
     \<lparr>tmpl_type = ty, tmpl_name = name, tmpl_cast = FR_TYPE_INVALID,
      tmpl_da = ex_da name FR_TYPE_STRING, tmpl_value = ex_box name,
      tmpl_regex = name, tmpl_regex_flags = 0\<rparr>"

definition ex_map :: "tmpl \<Rightarrow> fr_token_t \<Rightarrow> tmpl \<Rightarrow> map_t" where
  "ex_map l op r = \<lparr>map_lhs = l, map_op = op, map_rhs = r\<rparr>"

definition ex_cond :: "fr_cond_type_t \<Rightarrow> fr_cond" where
  "ex_cond ty =
     \<lparr>cond_type = ty, cond_negate = False, cond_pass2_fixup = PASS2_FIXUP_NONE,
      cond_next = None, cond_parent = None,
      cond_vpt = ex_tmpl TMPL_TYPE_NULL [],
      cond_map = ex_map (ex_tmpl TMPL_TYPE_NULL []) T_OP_CMP_EQ (ex_tmpl TMPL_TYPE_NULL []),
      cond_rcode = 0, cond_child = None\<rparr>"

definition ex_cond_tmpl :: "tmpl \<Rightarrow> fr_cond" where
  "ex_cond_tmpl vpt = (ex_cond COND_TYPE_TMPL)\<lparr>cond_vpt := vpt\<rparr>"

definition ex_cond_map :: "tmpl \<Rightarrow> fr_token_t \<Rightarrow> tmpl \<Rightarrow> fr_cond" where
  "ex_cond_map l op r = (ex_cond COND_TYPE_MAP)\<lparr>cond_map := ex_map l op r\<rparr>"

text \<open>A node store holding the given nodes at the addresses 0, 1, 2, ...\<close>

definition ex_store :: "fr_cond list \<Rightarrow> cond_store" where
  "ex_store nodes = (\<lambda>a. if a < length nodes then nodes ! a else ex_cond COND_TYPE_INVALID)"

definition ex_request :: "fr_pair list \<Rightarrow> nat request" where
  "ex_request pairs = \<lparr>request_pairs = pairs, regex_captures = [''old''], request_data = 0\<rparr>"

definition ex_pair :: "string \<Rightarrow> string \<Rightarrow> fr_pair" where
  "ex_pair name str = \<lparr>pair_da = ex_da name FR_TYPE_STRING, pair_op = T_OP_CMP_EQ, pair_data = ex_box str\<rparr>"

text \<open>The conditions and requests the examples below are run on.\<close>

definition ex_regex_map :: "string \<Rightarrow> fr_cond" where
  "ex_regex_map pattern =
     ex_cond_map (ex_tmpl TMPL_TYPE_ATTR ''User-Name'') T_OP_REG_EQ (ex_tmpl TMPL_TYPE_REGEX pattern)"



definition ex_cast_on_right :: fr_cond where
  "ex_cast_on_right =
     ex_cond_map ((ex_tmpl TMPL_TYPE_ATTR ''Framed-IP-Address'')\<lparr>tmpl_da := ex_da ''Framed-IP-Address'' FR_TYPE_IPV4_ADDR\<rparr>)
       T_OP_CMP_EQ ((ex_tmpl TMPL_TYPE_XLAT ''%{id}'')\<lparr>tmpl_cast := FR_TYPE_UINT32\<rparr>)"

definition ex_cast_on_left :: fr_cond where
  "ex_cast_on_left =
     ex_cond_map ((ex_tmpl TMPL_TYPE_XLAT ''%{id}'')\<lparr>tmpl_cast := FR_TYPE_UINT32\<rparr>) T_OP_CMP_EQ
       ((ex_tmpl TMPL_TYPE_ATTR ''Framed-IP-Address'')\<lparr>tmpl_da := ex_da ''Framed-IP-Address'' FR_TYPE_IPV4_ADDR\<rparr>)"

definition ex_literals :: fr_cond where
  "ex_literals = ex_cond_map (ex_tmpl TMPL_TYPE_DATA ''010'') T_OP_CMP_EQ (ex_tmpl TMPL_TYPE_DATA ''10'')"

definition ex_and_store :: cond_store where
  "ex_and_store = ex_store
     [(ex_cond_tmpl (ex_tmpl TMPL_TYPE_XLAT ''''))\<lparr>cond_next := Some 1\<rparr>,
      (ex_cond COND_TYPE_AND)\<lparr>cond_next := Some 2\<rparr>,
      ex_cond_tmpl (ex_tmpl TMPL_TYPE_XLAT ''%{b}'')]"

definition ex_or_store :: cond_store where
  "ex_or_store = ex_store
     [(ex_cond_tmpl (ex_tmpl TMPL_TYPE_XLAT ''%{a}''))\<lparr>cond_next := Some 1\<rparr>,
      (ex_cond COND_TYPE_OR)\<lparr>cond_next := Some 2\<rparr>,
      ex_cond_tmpl (ex_tmpl TMPL_TYPE_XLAT ''%{b}'')]"






definition ex_attr_eq :: fr_cond where
  "ex_attr_eq = ex_cond_map (ex_tmpl TMPL_TYPE_ATTR ''User-Name'') T_OP_CMP_EQ (ex_tmpl TMPL_TYPE_DATA ''bob'')"

definition ex_nested_store :: cond_store where
  "ex_nested_store = ex_store
     [(ex_cond COND_TYPE_CHILD)\<lparr>cond_child := Some 1, cond_next := Some 4\<rparr>,
      (ex_cond COND_TYPE_TRUE)\<lparr>cond_parent := Some 0, cond_next := Some 2\<rparr>,
      (ex_cond COND_TYPE_AND)\<lparr>cond_parent := Some 0, cond_next := Some 3\<rparr>,
      ex_attr_eq\<lparr>cond_parent := Some 0\<rparr>,
      (ex_cond COND_TYPE_OR)\<lparr>cond_next := Some 5\<rparr>,
      ex_cond COND_TYPE_TRUE]"

definition ex_nested_tree :: cond_tree where
  "ex_nested_tree =
     Node 0 (Node 1 End (Node 2 End (Node 3 End End))) (Node 4 End (Node 5 End End))"





section \<open>Lemmas\<close>

subsection \<open>Unfolding the definitions on examples\<close>

lemmas ex_simps = ex_cond_map_def ex_cond_def ex_map_def ex_tmpl_def ex_env_def
  ex_box_def ex_da_def ex_request_def ex_pair_def ex_cast_def ex_cmp_op_def ex_count_def ex_expand_len_def
  ex_cond_tmpl_def ex_store_def


subsection \<open>The walk over a finite tree returns\<close>

lemma cond_tree_at_None: "cond_tree_at h p None t \<Longrightarrow> t = End"
  by (cases t) simp_all

lemma cond_tree_at_Some:
  "cond_tree_at h p (Some n) t \<Longrightarrow>
     \<exists>ch nx. t = Node n ch nx \<and> cond_parent (h n) = p \<and> cond_tree_at h p (cond_next (h n)) nx
        \<and> (if cond_type (h n) = COND_TYPE_CHILD then cond_tree_at h (Some n) (cond_child (h n)) ch else ch = End)"
  by (cases t) simp_all

lemma advance_step:
  assumes "cond_tree_at h par (cond_next (h a)) nxt"
  shows "cond_eval_advance h a rcode depth =
           (case cond_parent (h a) of None \<Rightarrow> Some Returned
            | Some p \<Rightarrow> cond_eval_advance h p rcode (depth - 1))
         \<or> (\<exists>c' t'. cond_eval_advance h a rcode depth = Some (Moved c' depth)
               \<and> cond_tree_at h par c' t' \<and> suffix (preorder t') (preorder nxt))"
proof (cases "cond_next (h a)")
  case None
  then show ?thesis by (subst cond_eval_advance.simps) simp
next
  case (Some n)
  with assms obtain ch nx where t: "nxt = Node n ch nx" "cond_tree_at h par (cond_next (h n)) nx"
    using cond_tree_at_Some by metis
  have s1: "suffix (preorder nx) (preorder nxt)"
    unfolding t(1) by (simp add: suffix_def)
  have s2: "suffix (preorder nxt) (preorder nxt)" by simp
  have t2: "cond_tree_at h par (Some n) nxt" using assms Some by simp
  have eq: "cond_eval_advance h a rcode depth =
     (case cond_type (h n) of
             COND_TYPE_AND \<Rightarrow>
               if rcode = 0 then
                 (case cond_parent (h a) of
                    None \<Rightarrow> Some Returned
                  | Some p \<Rightarrow> cond_eval_advance h p rcode (depth - 1))
               else Some (Moved (cond_next (h n)) depth)
           | COND_TYPE_OR \<Rightarrow>
               if rcode \<noteq> 0 then
                 (case cond_parent (h a) of
                    None \<Rightarrow> Some Returned
                  | Some p \<Rightarrow> cond_eval_advance h p rcode (depth - 1))
               else Some (Moved (cond_next (h n)) depth)
           | _ \<Rightarrow> Some (Moved (Some n) depth))"
    by (subst cond_eval_advance.simps) (simp add: Some)
  show ?thesis
    unfolding eq using t(2) s1 s2 t2
    by (cases "cond_type (h n)") auto
qed

lemma advance_total:
  "cond_ctx_at h ((a, nxt) # K) \<Longrightarrow>
     \<exists>res. cond_eval_advance h a rcode depth = Some res \<and>
       (case res of Returned \<Rightarrow> True
        | Moved c' d' \<Rightarrow> \<exists>t' K'. cond_tree_at h (ctx_parent K') c' t' \<and> cond_ctx_at h K'
             \<and> suffix (preorder t' @ ctx_preorder K') (preorder nxt @ ctx_preorder K))"
proof (induction K arbitrary: a nxt depth)
  case Nil
  then have par: "cond_parent (h a) = None" and nx: "cond_tree_at h None (cond_next (h a)) nxt"
    by simp_all
  from advance_step[OF nx, of rcode depth] show ?case
  proof
    assume "cond_eval_advance h a rcode depth =
      (case cond_parent (h a) of None \<Rightarrow> Some Returned | Some p \<Rightarrow> cond_eval_advance h p rcode (depth - 1))"
    with par show ?thesis by simp
  next
    assume "\<exists>c' t'. cond_eval_advance h a rcode depth = Some (Moved c' depth)
               \<and> cond_tree_at h None c' t' \<and> suffix (preorder t') (preorder nxt)"
    then obtain c' t' where m: "cond_eval_advance h a rcode depth = Some (Moved c' depth)"
      "cond_tree_at h None c' t'" "suffix (preorder t') (preorder nxt)" by blast
    have "cond_tree_at h (ctx_parent []) c' t' \<and> cond_ctx_at h []
          \<and> suffix (preorder t' @ ctx_preorder []) (preorder nxt @ ctx_preorder [])"
      using m by simp
    then have "\<exists>t' K'. cond_tree_at h (ctx_parent K') c' t' \<and> cond_ctx_at h K'
          \<and> suffix (preorder t' @ ctx_preorder K') (preorder nxt @ ctx_preorder [])" by blast
    with m(1) show ?thesis by simp
  qed
next
  case (Cons x K)
  obtain p px where x: "x = (p, px)" by (cases x)
  from Cons.prems x have par: "cond_parent (h a) = Some p"
    and nx: "cond_tree_at h (Some p) (cond_next (h a)) nxt"
    and ctx: "cond_ctx_at h ((p, px) # K)" by simp_all
  from advance_step[OF nx, of rcode depth] show ?case
  proof
    assume "cond_eval_advance h a rcode depth =
      (case cond_parent (h a) of None \<Rightarrow> Some Returned | Some p \<Rightarrow> cond_eval_advance h p rcode (depth - 1))"
    with par have eq: "cond_eval_advance h a rcode depth = cond_eval_advance h p rcode (depth - 1)" by simp
    from Cons.IH[OF ctx, of "depth - 1"] obtain res where
      r: "cond_eval_advance h p rcode (depth - 1) = Some res"
      "(case res of Returned \<Rightarrow> True
        | Moved c' d' \<Rightarrow> \<exists>t' K'. cond_tree_at h (ctx_parent K') c' t' \<and> cond_ctx_at h K'
             \<and> suffix (preorder t' @ ctx_preorder K') (preorder px @ ctx_preorder K))" by blast
    show ?thesis
    proof (cases res)
      case Returned
      with eq r show ?thesis by simp
    next
      case (Moved c' d')
      with r(2) obtain t' K' where k: "cond_tree_at h (ctx_parent K') c' t'" "cond_ctx_at h K'"
        "suffix (preorder t' @ ctx_preorder K') (preorder px @ ctx_preorder K)" by auto
      from k(3) have "suffix (preorder t' @ ctx_preorder K') (preorder nxt @ ctx_preorder (x # K))"
        unfolding x by (simp add: suffix_appendI)
      with k(1,2) eq r(1) Moved show ?thesis by auto
    qed
  next
    assume "\<exists>c' t'. cond_eval_advance h a rcode depth = Some (Moved c' depth)
               \<and> cond_tree_at h (Some p) c' t' \<and> suffix (preorder t') (preorder nxt)"
    then obtain c' t' where m: "cond_eval_advance h a rcode depth = Some (Moved c' depth)"
      "cond_tree_at h (Some p) c' t'" "suffix (preorder t') (preorder nxt)" by blast
    have "cond_tree_at h (ctx_parent (x # K)) c' t' \<and> cond_ctx_at h (x # K)
          \<and> suffix (preorder t' @ ctx_preorder (x # K)) (preorder nxt @ ctx_preorder (x # K))"
      using m ctx x by (simp add: suffix_def)
    then have "\<exists>t' K'. cond_tree_at h (ctx_parent K') c' t' \<and> cond_ctx_at h K'
          \<and> suffix (preorder t' @ ctx_preorder K') (preorder nxt @ ctx_preorder (x # K))" by blast
    with m(1) show ?thesis by simp
  qed
qed


lemma loop_total:
  assumes Qn: "\<And>a request d rc request'.
       cond_eval_node env request modreturn d (h a) = Some (rc, request') \<Longrightarrow>
       (if rc < 0 then Q rc else Q (cond_negated (h a) rc))"
    and Qf: "Q (- 1)"
  shows "cond_tree_at h (ctx_parent K) c t \<Longrightarrow> cond_ctx_at h K \<Longrightarrow> Q rcode \<Longrightarrow>
     \<exists>r request' tr.
        cond_eval_loop env h modreturn request c rcode depth visited = Some (r, request', visited @ tr)
        \<and> subseq tr (preorder t @ ctx_preorder K) \<and> Q r"
proof (induction "length (preorder t @ ctx_preorder K)"
        arbitrary: t K c request rcode depth visited rule: less_induct)
  case less
  show ?case
  proof (cases c)
    case None
    have "cond_eval_loop env h modreturn request c rcode depth visited = Some (rcode, request, visited @ [])"
      by (subst cond_eval_loop.simps) (simp add: None)
    with less.prems(3) show ?thesis by blast
  next
    case (Some a)
    with less.prems(1) obtain ch nx where t: "t = Node a ch nx"
      and par: "cond_parent (h a) = ctx_parent K"
      and tnx: "cond_tree_at h (ctx_parent K) (cond_next (h a)) nx"
      and tch: "if cond_type (h a) = COND_TYPE_CHILD
                then cond_tree_at h (Some a) (cond_child (h a)) ch else ch = End"
      using cond_tree_at_Some by metis
    have ctx': "cond_ctx_at h ((a, nx) # K)"
      using par tnx less.prems(2) by simp
    show ?thesis
    proof (cases "cond_type (h a) = COND_TYPE_CHILD")
      case True
      have eq: "cond_eval_loop env h modreturn request c rcode depth visited =
                cond_eval_loop env h modreturn request (cond_child (h a)) rcode (depth + 1) (visited @ [a])"
        by (subst cond_eval_loop.simps) (simp add: Some True)
      have tc: "cond_tree_at h (ctx_parent ((a, nx) # K)) (cond_child (h a)) ch"
        using tch True by simp
      have lt: "length (preorder ch @ ctx_preorder ((a, nx) # K)) < length (preorder t @ ctx_preorder K)"
        unfolding t by simp
      from less.hyps[OF lt tc ctx' less.prems(3), of request "depth + 1" "visited @ [a]"]
      obtain r request' tr where
        r: "cond_eval_loop env h modreturn request (cond_child (h a)) rcode (depth + 1) (visited @ [a])
              = Some (r, request', (visited @ [a]) @ tr)"
        and sub: "subseq tr (preorder ch @ ctx_preorder ((a, nx) # K))" and q: "Q r"
        by blast
      have "subseq (a # tr) (preorder t @ ctx_preorder K)"
        unfolding t using sub by simp
      moreover have "cond_eval_loop env h modreturn request c rcode depth visited
                       = Some (r, request', visited @ (a # tr))"
        using eq r by simp
      ultimately show ?thesis using q by blast
    next
      case False
      have one: "subseq [a] (preorder t @ ctx_preorder K)"
        unfolding t by simp
      show ?thesis
      proof (cases "cond_eval_node env request modreturn depth (h a)")
        case None
        have "cond_eval_loop env h modreturn request c rcode depth visited
                = Some (- 1, request, visited @ [a])"
          by (subst cond_eval_loop.simps) (simp add: Some False None)
        with one Qf show ?thesis by blast
      next
        case (Some res)
        obtain rc request1 where res: "res = (rc, request1)" by (cases res)
        note node = Some[unfolded res]
        show ?thesis
        proof (cases "rc < 0")
          case True
          have "cond_eval_loop env h modreturn request c rcode depth visited
                  = Some (rc, request1, visited @ [a])"
            by (subst cond_eval_loop.simps) (simp add: \<open>c = Some a\<close> False node True)
          moreover have "Q rc" using Qn[OF node] True by simp
          ultimately show ?thesis using one by blast
        next
          case nonneg: False
          let ?rc = "cond_negated (h a) rc"
          have q': "Q ?rc" using Qn[OF node] nonneg by simp
          from advance_total[OF ctx', of ?rc depth] obtain adv where
            adv: "cond_eval_advance h a ?rc depth = Some adv"
            and advp: "(case adv of Returned \<Rightarrow> True
               | Moved c' d' \<Rightarrow> \<exists>t' K'. cond_tree_at h (ctx_parent K') c' t' \<and> cond_ctx_at h K'
                   \<and> suffix (preorder t' @ ctx_preorder K') (preorder nx @ ctx_preorder K))"
            by blast
          show ?thesis
          proof (cases adv)
            case Returned
            have "cond_eval_loop env h modreturn request c rcode depth visited
                    = Some (?rc, request1, visited @ [a])"
              by (subst cond_eval_loop.simps)
                 (simp add: \<open>c = Some a\<close> False node nonneg adv Returned)
            with one q' show ?thesis by blast
          next
            case (Moved c' d')
            with advp obtain t' K' where
              t': "cond_tree_at h (ctx_parent K') c' t'" and k': "cond_ctx_at h K'"
              and suf: "suffix (preorder t' @ ctx_preorder K') (preorder nx @ ctx_preorder K)"
              by auto
            have eq: "cond_eval_loop env h modreturn request c rcode depth visited
                    = cond_eval_loop env h modreturn request1 c' ?rc d' (visited @ [a])"
              by (subst cond_eval_loop.simps)
                 (simp add: \<open>c = Some a\<close> False node nonneg adv Moved)
            have "length (preorder t' @ ctx_preorder K') \<le> length (preorder nx @ ctx_preorder K)"
              using suf by (rule suffix_length_le)
            then have lt: "length (preorder t' @ ctx_preorder K') < length (preorder t @ ctx_preorder K)"
              unfolding t by simp
            from less.hyps[OF lt t' k' q', of request1 d' "visited @ [a]"]
            obtain r request' tr where
              r: "cond_eval_loop env h modreturn request1 c' ?rc d' (visited @ [a])
                    = Some (r, request', (visited @ [a]) @ tr)"
              and sub: "subseq tr (preorder t' @ ctx_preorder K')" and q: "Q r"
              by blast
            have "subseq tr (preorder nx @ ctx_preorder K)"
              using sub suf by (meson subseq_order.trans sublist_imp_subseq suffix_imp_sublist)
            moreover have "ch = End" using tch False by simp
            ultimately have "subseq (a # tr) (preorder t @ ctx_preorder K)"
              unfolding t by simp
            moreover have "cond_eval_loop env h modreturn request c rcode depth visited
                       = Some (r, request', visited @ (a # tr))"
              using eq r by simp
            ultimately show ?thesis using q by blast
          qed
        qed
      qed
    qed
  qed
qed

subsection \<open>The nodes of a finite tree are distinct\<close>

lemma cond_level_unique: "cond_level h n c \<Longrightarrow> cond_level h m c \<Longrightarrow> n = m"
  unfolding cond_level_def by (meson nat_neq_iff)

lemma cond_level_Suc:
  assumes "cond_level h d p" and "cond_parent (h a) = p"
  shows "cond_level h (Suc d) (Some a)"
proof -
  have up: "cond_up h (Some a) = p" using assms(2) by (simp add: cond_up_def)
  have "(cond_up h ^^ Suc d) (Some a) = (cond_up h ^^ d) p"
    by (simp add: funpow_swap1 up)
  moreover have "(cond_up h ^^ m) (Some a) \<noteq> None" if "m < Suc d" for m
  proof (cases m)
    case 0
    then show ?thesis by simp
  next
    case (Suc m')
    then have "(cond_up h ^^ m) (Some a) = (cond_up h ^^ m') p"
      by (simp add: funpow_swap1 up)
    moreover have "m' < d" using that Suc by simp
    ultimately show ?thesis using assms(1) by (simp add: cond_level_def)
  qed
  ultimately show ?thesis using assms(1) by (simp add: cond_level_def)
qed

lemma chain_parent: "cond_tree_at h p c t \<Longrightarrow> x \<in> set (chain t) \<Longrightarrow> cond_parent (h x) = p"
  by (induction t arbitrary: c) auto

lemma chain_unique: "cond_tree_at h p c t \<Longrightarrow> cond_tree_at h p' c t' \<Longrightarrow> chain t = chain t'"
proof (induction t arbitrary: c t')
  case End
  then show ?case by (cases t') simp_all
next
  case (Node a ch nx)
  then show ?case by (cases t') auto
qed

lemma chain_tail:
  "cond_tree_at h p c t \<Longrightarrow> x \<in> set (chain t) \<Longrightarrow>
     \<exists>t'. cond_tree_at h p (cond_next (h x)) t' \<and> length (chain t') < length (chain t)"
proof (induction t arbitrary: c)
  case End
  then show ?case by simp
next
  case (Node a ch nx)
  show ?case
  proof (cases "x = a")
    case True
    with Node.prems show ?thesis by auto
  next
    case False
    with Node.prems have "x \<in> set (chain nx)" and "cond_tree_at h p (cond_next (h a)) nx" by auto
    from Node.IH(2)[OF this(2,1)] show ?thesis by auto
  qed
qed

lemma chain_acyclic:
  assumes "cond_tree_at h p (cond_next (h a)) nx"
  shows "a \<notin> set (chain nx)"
proof
  assume "a \<in> set (chain nx)"
  from chain_tail[OF assms this] obtain t' where
    "cond_tree_at h p (cond_next (h a)) t'" and "length (chain t') < length (chain nx)" by blast
  moreover from chain_unique[OF assms this(1)] have "chain nx = chain t'" .
  ultimately show False by simp
qed

lemma preorder_levels:
  "cond_tree_at h p c t \<Longrightarrow> cond_level h d p \<Longrightarrow>
     distinct (preorder t)
     \<and> (\<forall>x \<in> set (preorder t). \<exists>k. (cond_up h ^^ k) (Some x) \<in> Some ` set (chain t)
                                      \<and> cond_level h (Suc (d + k)) (Some x))"
proof (induction t arbitrary: p c d)
  case End
  then show ?case by simp
next
  case (Node a ch nx)
  from Node.prems(1) have c: "c = Some a" and par: "cond_parent (h a) = p"
    and tch: "if cond_type (h a) = COND_TYPE_CHILD
              then cond_tree_at h (Some a) (cond_child (h a)) ch else ch = End"
    and tnx: "cond_tree_at h p (cond_next (h a)) nx" by simp_all
  have la: "cond_level h (Suc d) (Some a)" using cond_level_Suc[OF Node.prems(2) par] .
  have ich: "distinct (preorder ch)
     \<and> (\<forall>x \<in> set (preorder ch). \<exists>k. (cond_up h ^^ k) (Some x) \<in> Some ` set (chain ch)
                                      \<and> cond_level h (Suc (Suc d + k)) (Some x))"
  proof (cases "cond_type (h a) = COND_TYPE_CHILD")
    case True
    with tch have "cond_tree_at h (Some a) (cond_child (h a)) ch" by simp
    from Node.IH(1)[OF this la] show ?thesis .
  next
    case False
    with tch show ?thesis by simp
  qed
  have inx: "distinct (preorder nx)
     \<and> (\<forall>x \<in> set (preorder nx). \<exists>k. (cond_up h ^^ k) (Some x) \<in> Some ` set (chain nx)
                                      \<and> cond_level h (Suc (d + k)) (Some x))"
    using Node.IH(2)[OF tnx Node.prems(2)] .
  have acyc: "a \<notin> set (chain nx)" using chain_acyclic[OF tnx] .
  have below: "\<exists>k. (cond_up h ^^ Suc k) (Some x) = Some a \<and> cond_level h (Suc (Suc d + k)) (Some x)"
    if "x \<in> set (preorder ch)" for x
  proof -
    from ich that obtain k y where y: "y \<in> set (chain ch)" "(cond_up h ^^ k) (Some x) = Some y"
      and l: "cond_level h (Suc (Suc d + k)) (Some x)" by auto
    have "ch \<noteq> End" using y(1) by auto
    with tch have "cond_tree_at h (Some a) (cond_child (h a)) ch" by (simp split: if_splits)
    from chain_parent[OF this y(1)] have "cond_up h (Some y) = Some a" by (simp add: cond_up_def)
    with y(2) have "(cond_up h ^^ Suc k) (Some x) = Some a" by simp
    with l show ?thesis by blast
  qed
  have d1: "a \<notin> set (preorder ch)"
  proof
    assume "a \<in> set (preorder ch)"
    from below[OF this] obtain k where "cond_level h (Suc (Suc d + k)) (Some a)" by blast
    from cond_level_unique[OF this la] show False by simp
  qed
  have d2: "a \<notin> set (preorder nx)"
  proof
    assume "a \<in> set (preorder nx)"
    with inx obtain k where k: "(cond_up h ^^ k) (Some a) \<in> Some ` set (chain nx)"
      "cond_level h (Suc (d + k)) (Some a)" by blast
    from cond_level_unique[OF k(2) la] have "k = 0" by simp
    with k(1) acyc show False by auto
  qed
  have d3: "set (preorder ch) \<inter> set (preorder nx) = {}"
  proof (rule ccontr)
    assume "set (preorder ch) \<inter> set (preorder nx) \<noteq> {}"
    then obtain x where x1: "x \<in> set (preorder ch)" and x2: "x \<in> set (preorder nx)" by blast
    from below[OF x1] obtain k1 where k1: "(cond_up h ^^ Suc k1) (Some x) = Some a"
      "cond_level h (Suc (Suc d + k1)) (Some x)" by blast
    from inx x2 obtain k2 where k2: "(cond_up h ^^ k2) (Some x) \<in> Some ` set (chain nx)"
      "cond_level h (Suc (d + k2)) (Some x)" by blast
    from cond_level_unique[OF k1(2) k2(2)] have "k2 = Suc k1" by simp
    with k1(1) k2(1) acyc show False by auto
  qed
  have dist: "distinct (preorder (Node a ch nx))"
    using d1 d2 d3 ich inx by simp
  have anc: "\<exists>k. (cond_up h ^^ k) (Some x) \<in> Some ` set (chain (Node a ch nx))
                \<and> cond_level h (Suc (d + k)) (Some x)"
    if "x \<in> set (preorder (Node a ch nx))" for x
  proof -
    from that consider "x = a" | "x \<in> set (preorder ch)" | "x \<in> set (preorder nx)" by auto
    then show ?thesis
    proof cases
      case 1
      have "(cond_up h ^^ 0) (Some x) \<in> Some ` set (chain (Node a ch nx))" using 1 by simp
      moreover have "cond_level h (Suc (d + 0)) (Some x)" using la 1 by simp
      ultimately show ?thesis by blast
    next
      case 2
      from below[OF 2] obtain k where k: "(cond_up h ^^ Suc k) (Some x) = Some a"
        "cond_level h (Suc (Suc d + k)) (Some x)" by blast
      have "(cond_up h ^^ Suc k) (Some x) \<in> Some ` set (chain (Node a ch nx))" using k(1) by simp
      moreover have "cond_level h (Suc (d + Suc k)) (Some x)" using k(2) by simp
      ultimately show ?thesis by blast
    next
      case 3
      with inx obtain k where "(cond_up h ^^ k) (Some x) \<in> Some ` set (chain nx)"
        "cond_level h (Suc (d + k)) (Some x)" by blast
      then show ?thesis by auto
    qed
  qed
  from dist anc show ?case by blast
qed

lemma cond_tree_distinct:
  assumes "cond_tree_at h None c t"
  shows "distinct (preorder t)"
proof -
  have "cond_level h 0 None" by (simp add: cond_level_def)
  from preorder_levels[OF assms this] show ?thesis by simp
qed

lemma subseq_distinct: "subseq xs ys \<Longrightarrow> distinct ys \<Longrightarrow> distinct xs"
  by (auto simp: subseq_conv_nths)

subsection \<open>Return codes\<close>
















subsection \<open>Failure codes handed up\<close>









subsection \<open>The loop over the instances of a right-hand attribute\<close>



section \<open>Claims\<close>

subsection \<open>C1: two literal strings\<close>

text \<open>
  C1, as amended. A map that compares two literal (data) templates with an operator
  other than the regex match is settled on the realized operands: both sides realize,
  so \<open>cond_eval_map\<close> returns what the generic comparison returns on the two literal
  values as they are stored. No cast is applied and \<^verbatim>\<open>CHECK_INT_CAST\<close> is not reached.
  Nor would it change anything in \<open>cond_normalise_and_cmp\<close>: without a cast on the left
  literal and without the pair comparison flag, the type of the left literal is the
  type chosen there, and \<^verbatim>\<open>CHECK_INT_CAST\<close> leaves a chosen type as it is.
\<close>

theorem cond_eval_map_literals:
  assumes "tmpl_type (map_lhs (cond_map c)) = TMPL_TYPE_DATA"
    and "tmpl_type (map_rhs (cond_map c)) = TMPL_TYPE_DATA"
    and "map_op (cond_map c) \<noteq> T_OP_REG_EQ"
  shows "cond_eval_map env request depth c =
           (fr_value_box_cmp_op env (map_op (cond_map c))
              (Some (tmpl_value (map_lhs (cond_map c)))) (Some (tmpl_value (map_rhs (cond_map c)))),
            request)
       \<and> (cond_pass2_fixup c \<noteq> PASS2_PAIRCOMPARE
            \<and> tmpl_cast (map_lhs (cond_map c)) = FR_TYPE_INVALID
            \<and> vb_type (tmpl_value (map_lhs (cond_map c))) \<noteq> FR_TYPE_INVALID \<longrightarrow>
          CHECK_INT_CAST (cond_normalise_cast_type c) l r = vb_type (tmpl_value (map_lhs (cond_map c))))"
proof -
  have "cond_eval_map env request depth c =
           (fr_value_box_cmp_op env (map_op (cond_map c))
              (Some (tmpl_value (map_lhs (cond_map c)))) (Some (tmpl_value (map_rhs (cond_map c)))),
            request)"
    using assms by (simp add: cond_eval_map_def cond_realize_tmpl_def Let_def)
  moreover have "CHECK_INT_CAST (cond_normalise_cast_type c) l r = vb_type (tmpl_value (map_lhs (cond_map c)))"
    if "cond_pass2_fixup c \<noteq> PASS2_PAIRCOMPARE"
      and "tmpl_cast (map_lhs (cond_map c)) = FR_TYPE_INVALID"
      and "vb_type (tmpl_value (map_lhs (cond_map c))) \<noteq> FR_TYPE_INVALID"
    using assms that
    by (simp add: cond_normalise_cast_type_def CHECK_INT_CAST_def Let_def split: option.splits)
  ultimately show ?thesis by blast
qed

text \<open>On the literals \<open>010\<close> and \<open>10\<close> under equality of boxes the result is "no match".\<close>

theorem cond_eval_map_literals_witness:
  "cond_eval_map ex_env (ex_request []) 0 ex_literals = (0, ex_request [])
   \<and> CHECK_INT_CAST (cond_normalise_cast_type ex_literals) (Some (ex_box ''010'')) (Some (ex_box ''10''))
       = FR_TYPE_STRING"
  using cond_eval_map_literals[of ex_literals ex_env "ex_request []" 0 "Some (ex_box ''010'')" "Some (ex_box ''10'')"]
  by (simp add: ex_literals_def ex_simps)

text \<open>
  C1 as stated fails: both strings are all digits, and the evaluation of the map
  \<open>010 == 10\<close> returns 0, not 1.
\<close>

theorem cond_eval_literals_counterexample:
  "all_digits ''010'' \<and> all_digits ''10''
   \<and> cond_eval ex_env (ex_store [ex_literals]) (ex_request []) 0 (Some 0) = Some (0, ex_request [])"
  by (simp add: cond_eval_def cond_eval_loop.simps cond_eval_advance.simps cond_eval_node_def
       cond_negated_def cond_eval_map_def cond_realize_tmpl_def Let_def all_digits_def isdigit_def
       ex_literals_def ex_simps)

subsection \<open>C2: a bare expansion\<close>

text \<open>
  C2, as amended. For a bare template node whose template is an exec or an xlat,
  \<open>cond_eval_tmpl\<close> returns 1 exactly when the expansion returned a positive length. A
  failed expansion (a negative length) gives 0, as an empty one does: it is not
  reported as a failure.
\<close>

theorem cond_eval_tmpl_expansion:
  assumes "tmpl_type vpt = TMPL_TYPE_XLAT \<or> tmpl_type vpt = TMPL_TYPE_EXEC"
    and "tmpl_aexpand env vpt NO_ESCAPE request = (slen, p, request')"
  shows "cond_eval_tmpl env request depth vpt = ((if 0 < slen then 1 else 0), request')"
  using assms by (auto simp: cond_eval_tmpl_def cond_eval_tmpl_expand_def)

theorem cond_eval_tmpl_expansion_witness:
  "cond_eval_tmpl ex_env (ex_request []) 0 (ex_tmpl TMPL_TYPE_XLAT ''%{fail}'') = (0, ex_count (ex_request []))
   \<and> cond_eval_tmpl ex_env (ex_request []) 0 (ex_tmpl TMPL_TYPE_EXEC ''id'') = (1, ex_count (ex_request []))"
  using cond_eval_tmpl_expansion[of "ex_tmpl TMPL_TYPE_XLAT ''%{fail}''" ex_env "ex_request []" "- 1" "''%{fail}''" "ex_count (ex_request [])" 0]
        cond_eval_tmpl_expansion[of "ex_tmpl TMPL_TYPE_EXEC ''id''" ex_env "ex_request []" 2 "''id''" "ex_count (ex_request [])" 0]
  by (simp add: ex_tmpl_def ex_env_def ex_expand_len_def)

text \<open>
  C2 as stated fails: the expansion of \<open>%{fail}\<close> returns -1, and the evaluation of the
  condition made of that template alone returns 0, not a failure.
\<close>

theorem cond_eval_tmpl_fail_counterexample:
  "fst (tmpl_aexpand ex_env (ex_tmpl TMPL_TYPE_XLAT ''%{fail}'') NO_ESCAPE (ex_request [])) = - 1
   \<and> cond_eval ex_env (ex_store [ex_cond_tmpl (ex_tmpl TMPL_TYPE_XLAT ''%{fail}'')]) (ex_request []) 0 (Some 0)
       = Some (0, ex_count (ex_request []))"
  by (simp add: cond_eval_def cond_eval_loop.simps cond_eval_advance.simps cond_eval_node_def
       cond_negated_def cond_eval_tmpl_def cond_eval_tmpl_expand_def ex_simps)

subsection \<open>C3: the legacy pair comparison\<close>




subsection \<open>C4: the cast type of the normalisation\<close>

text \<open>
  C4, as amended. For a map that is neither a regex match nor flagged
  \<open>PASS2_PAIRCOMPARE\<close>: when the left template carries an explicit cast, the type chosen
  is that cast, whatever the right template is; when the left template carries no cast
  and is an attribute reference, the type chosen is the declared type of that attribute,
  whatever cast the right template carries.
\<close>

theorem cond_normalise_cast_type_left:
  assumes "map_op (cond_map c) \<noteq> T_OP_REG_EQ"
    and "cond_pass2_fixup c \<noteq> PASS2_PAIRCOMPARE"
  shows "(tmpl_cast (map_lhs (cond_map c)) \<noteq> FR_TYPE_INVALID \<longrightarrow>
            cond_normalise_cast_type c = tmpl_cast (map_lhs (cond_map c)))
       \<and> (tmpl_cast (map_lhs (cond_map c)) = FR_TYPE_INVALID \<and> tmpl_type (map_lhs (cond_map c)) = TMPL_TYPE_ATTR \<longrightarrow>
            cond_normalise_cast_type c = da_type (tmpl_da (map_lhs (cond_map c))))"
  using assms by (simp add: cond_normalise_cast_type_def Let_def)

theorem cond_normalise_cast_type_left_witness:
  "cond_normalise_cast_type ex_cast_on_left = FR_TYPE_UINT32
   \<and> cond_normalise_cast_type ex_cast_on_right = FR_TYPE_IPV4_ADDR"
  using cond_normalise_cast_type_left[of ex_cast_on_left] cond_normalise_cast_type_left[of ex_cast_on_right]
  by (simp add: ex_cast_on_left_def ex_cast_on_right_def ex_simps)

text \<open>
  C4 as stated fails when the cast is on the right: with an uncast attribute of type
  \<open>FR_TYPE_IPV4_ADDR\<close> on the left and a cast to \<open>FR_TYPE_UINT32\<close> on the right, the
  type chosen is not the cast's.
\<close>

theorem cond_normalise_cast_type_right_counterexample:
  "map_op (cond_map ex_cast_on_right) \<noteq> T_OP_REG_EQ
   \<and> cond_pass2_fixup ex_cast_on_right \<noteq> PASS2_PAIRCOMPARE
   \<and> tmpl_cast (map_lhs (cond_map ex_cast_on_right)) = FR_TYPE_INVALID
   \<and> tmpl_type (map_lhs (cond_map ex_cast_on_right)) = TMPL_TYPE_ATTR
   \<and> tmpl_cast (map_rhs (cond_map ex_cast_on_right)) = FR_TYPE_UINT32
   \<and> cond_normalise_cast_type ex_cast_on_right \<noteq> FR_TYPE_UINT32"
  by (simp add: cond_normalise_cast_type_def ex_cast_on_left_def ex_cast_on_right_def ex_simps)

subsection \<open>C5: short circuit\<close>

text \<open>
  C5. Let a node \<open>a\<close> be followed by a marker \<open>m\<close>, and let the value \<open>v\<close> of \<open>a\<close> be 0
  with \<open>m\<close> an \<open>&&\<close>, or non-zero with \<open>m\<close> an \<open>||\<close>. Then the walk that follows \<open>a\<close> is
  the way back to the parent with that value, as after the last node of a chain,
  whether \<open>a\<close> is a node just evaluated or a child node the walk has come back to: the
  node after the marker is not read. So when the loop stands at such a node \<open>a\<close> that
  evaluates, after negation, to \<open>v\<close>, it returns \<open>v\<close> at once in the outermost chain, with
  the request as the evaluation of \<open>a\<close> left it and \<open>a\<close> the last node visited, and goes on
  from the parent in a nested chain. Nothing of the node after the marker is evaluated.
\<close>

theorem cond_eval_short_circuit:
  assumes "cond_next (h a) = Some m"
    and "cond_type (h m) = COND_TYPE_AND \<and> v = 0 \<or> cond_type (h m) = COND_TYPE_OR \<and> v \<noteq> 0"
  shows "cond_eval_advance h a v depth =
           (case cond_parent (h a) of
              None \<Rightarrow> Some Returned
            | Some p \<Rightarrow> cond_eval_advance h p v (depth - 1))
       \<and> (cond_eval_node env request modreturn depth (h a) = Some (rc, request')
            \<and> 0 \<le> rc \<and> cond_negated (h a) rc = v \<longrightarrow>
          cond_eval_loop env h modreturn request (Some a) rcode depth visited =
           (case cond_parent (h a) of
              None \<Rightarrow> Some (v, request', visited @ [a])
            | Some p \<Rightarrow>
               (case cond_eval_advance h p v (depth - 1) of
                  None \<Rightarrow> None
                | Some Returned \<Rightarrow> Some (v, request', visited @ [a])
                | Some (Moved c' depth') \<Rightarrow>
                    cond_eval_loop env h modreturn request' c' v depth' (visited @ [a]))))"
proof -
  have adv: "cond_eval_advance h a v depth =
          (case cond_parent (h a) of None \<Rightarrow> Some Returned
           | Some p \<Rightarrow> cond_eval_advance h p v (depth - 1))"
    using assms by (subst cond_eval_advance.simps) auto
  have "cond_eval_loop env h modreturn request (Some a) rcode depth visited =
           (case cond_parent (h a) of
              None \<Rightarrow> Some (v, request', visited @ [a])
            | Some p \<Rightarrow>
               (case cond_eval_advance h p v (depth - 1) of
                  None \<Rightarrow> None
                | Some Returned \<Rightarrow> Some (v, request', visited @ [a])
                | Some (Moved c' depth') \<Rightarrow>
                    cond_eval_loop env h modreturn request' c' v depth' (visited @ [a])))"
    if node: "cond_eval_node env request modreturn depth (h a) = Some (rc, request')"
      and rc: "0 \<le> rc" and neg: "cond_negated (h a) rc = v"
  proof -
    have nc: "cond_type (h a) \<noteq> COND_TYPE_CHILD"
      using node by (auto simp: cond_eval_node_def)
    have step: "cond_eval_loop env h modreturn request (Some a) rcode depth visited =
          (case cond_eval_advance h a (cond_negated (h a) rc) depth of
             None \<Rightarrow> None
           | Some Returned \<Rightarrow> Some (cond_negated (h a) rc, request', visited @ [a])
           | Some (Moved c' depth') \<Rightarrow>
               cond_eval_loop env h modreturn request' c' (cond_negated (h a) rc) depth' (visited @ [a]))"
      using node rc nc by (subst cond_eval_loop.simps) simp
    show ?thesis
      unfolding step neg adv by (cases "cond_parent (h a)") simp_all
  qed
  with adv show ?thesis by blast
qed

text \<open>
  In \<open>A && B\<close> with \<open>A\<close> an empty expansion, and in \<open>A || B\<close> with \<open>A\<close> a non-empty one,
  the expansion engine has run once when the evaluation returns.
\<close>

theorem cond_eval_short_circuit_witness:
  "cond_eval_loop ex_env ex_and_store 0 (ex_request []) (Some 0) (- 1) 0 [] = Some (0, ex_count (ex_request []), [0])
   \<and> cond_eval_loop ex_env ex_or_store 0 (ex_request []) (Some 0) (- 1) 0 [] = Some (1, ex_count (ex_request []), [0])
   \<and> request_data (ex_count (ex_request [])) = 1"
  using cond_eval_short_circuit[of ex_and_store 0 1 0 0 ex_env "ex_request []" 0 0 "ex_count (ex_request [])" "- 1" "[]"]
        cond_eval_short_circuit[of ex_or_store 0 1 1 0 ex_env "ex_request []" 0 1 "ex_count (ex_request [])" "- 1" "[]"]
  by (simp add: cond_eval_node_def cond_eval_tmpl_def
        cond_eval_tmpl_expand_def cond_negated_def ex_and_store_def ex_or_store_def ex_simps)

subsection \<open>C6: the values returned\<close>




subsection \<open>C7: the instances of a right-hand attribute\<close>



subsection \<open>C8: regex captures\<close>

text \<open>
  C8. Once \<open>cond_do_regex\<close> has a string on the left and a pattern to run: when the
  execution reports a match (1), the result is 1 and the capture slots of the request
  hold the captures of this match in place of what they held; when it reports no match
  (0), the result is 0 and the slots are cleared; when it reports an error (a negative
  code), that code is the result, which is a failure.
\<close>

theorem cond_do_regex_publishes:
  assumes "vb_type l = FR_TYPE_STRING"
    and "cond_do_regex_preg env (cond_map c) rhs = Some preg"
    and "regex_exec env preg (vb_strvalue l)
           (if regex_subcapture_count env preg = 0 then REQUEST_MAX_REGEX env + 1
            else regex_subcapture_count env preg) = (ret, regmatch)"
  shows "(ret = 1 \<longrightarrow> cond_do_regex env request c (Some l) rhs = (1, request\<lparr>regex_captures := regmatch\<rparr>))
       \<and> (ret = 0 \<longrightarrow> cond_do_regex env request c (Some l) rhs = (0, request\<lparr>regex_captures := []\<rparr>))
       \<and> (ret < 0 \<longrightarrow> fst (cond_do_regex env request c (Some l) rhs) = ret)"
  using assms by (simp add: cond_do_regex_def regex_sub_to_request_def Let_def)

theorem cond_do_regex_publishes_witness:
  "cond_do_regex ex_env (ex_request []) (ex_regex_map ''bar'') (Some (ex_box ''bar'')) None
     = (1, (ex_request [])\<lparr>regex_captures := [''bar'']\<rparr>)
   \<and> cond_do_regex ex_env (ex_request []) (ex_regex_map ''bar'') (Some (ex_box ''foo'')) None
     = (0, (ex_request [])\<lparr>regex_captures := []\<rparr>)
   \<and> fst (cond_do_regex ex_env (ex_request []) (ex_regex_map ''('') (Some (ex_box ''foo'')) None) = - 1"
  using cond_do_regex_publishes[of "ex_box ''bar''" ex_env "ex_regex_map ''bar''" None "''bar''" 1 "[''bar'']" "ex_request []"]
        cond_do_regex_publishes[of "ex_box ''foo''" ex_env "ex_regex_map ''bar''" None "''bar''" 0 "[]" "ex_request []"]
        cond_do_regex_publishes[of "ex_box ''foo''" ex_env "ex_regex_map ''(''" None "''(''" "- 1" "[]" "ex_request []"]
  by (simp add: ex_regex_map_def ex_simps cond_do_regex_preg_def)

subsection \<open>C9: termination of the walk\<close>

text \<open>
  C9. On a finite condition tree the loop of \<open>cond_eval\<close> returns. The nodes it
  dispatches on, in the order of its steps, form a subsequence of the pre-order listing
  of the tree: every step moves forward in that order. No node is visited twice, and
  the number of steps is at most the number of nodes of the tree.
\<close>

theorem cond_eval_terminates:
  assumes "cond_tree_at h None c t"
  shows "\<exists>rcode request' visited.
           cond_eval_loop env h modreturn request c (- 1) 0 [] = Some (rcode, request', visited)
           \<and> cond_eval env h request modreturn c = Some (rcode, request')
           \<and> subseq visited (preorder t)
           \<and> distinct visited
           \<and> length visited \<le> length (preorder t)"
proof -
  have "\<exists>r request' tr.
        cond_eval_loop env h modreturn request c (- 1) 0 [] = Some (r, request', [] @ tr)
        \<and> subseq tr (preorder t @ ctx_preorder []) \<and> True"
    by (rule loop_total[where Q = "\<lambda>r. True"]) (simp_all add: assms)
  then obtain r request' tr where
    run: "cond_eval_loop env h modreturn request c (- 1) 0 [] = Some (r, request', tr)"
    and sub: "subseq tr (preorder t)" by auto
  have "distinct tr"
    using sub cond_tree_distinct[OF assms] by (rule subseq_distinct)
  moreover have "length tr \<le> length (preorder t)"
    using sub by (rule list_emb_length)
  moreover have "cond_eval env h request modreturn c = Some (r, request')"
    using run by (simp add: cond_eval_def)
  ultimately show ?thesis using run sub by blast
qed

theorem cond_eval_terminates_witness:
  "cond_tree_at ex_nested_store None (Some 0) ex_nested_tree
   \<and> preorder ex_nested_tree = [0, 1, 2, 3, 4, 5]
   \<and> (\<exists>rcode request' visited.
         cond_eval_loop ex_env ex_nested_store 0 (ex_request [ex_pair ''User-Name'' ''alice'']) (Some 0) (- 1) 0 []
           = Some (rcode, request', visited)
         \<and> cond_eval ex_env ex_nested_store (ex_request [ex_pair ''User-Name'' ''alice'']) 0 (Some 0)
           = Some (rcode, request')
         \<and> subseq visited (preorder ex_nested_tree)
         \<and> distinct visited
         \<and> length visited \<le> length (preorder ex_nested_tree))"
proof -
  have t: "cond_tree_at ex_nested_store None (Some 0) ex_nested_tree"
    by (simp add: ex_nested_store_def ex_nested_tree_def ex_attr_eq_def ex_simps)
  have p: "preorder ex_nested_tree = [0, 1, 2, 3, 4, 5]"
    by (simp add: ex_nested_tree_def)
  from cond_eval_terminates[OF t, of ex_env 0 "ex_request [ex_pair ''User-Name'' ''alice'']"]
  show ?thesis using t p by blast
qed

subsection \<open>C10: captures on a regex error\<close>

text \<open>
  C10. When the execution of the regex reports neither a match nor "no match",
  \<open>cond_do_regex\<close> returns the reported code and the request unchanged: the capture
  slots hold what they held before.
\<close>

theorem cond_do_regex_error_frame:
  assumes "vb_type l = FR_TYPE_STRING"
    and "cond_do_regex_preg env (cond_map c) rhs = Some preg"
    and "regex_exec env preg (vb_strvalue l)
           (if regex_subcapture_count env preg = 0 then REQUEST_MAX_REGEX env + 1
            else regex_subcapture_count env preg) = (ret, regmatch)"
    and "ret \<noteq> 0" and "ret \<noteq> 1"
  shows "cond_do_regex env request c (Some l) rhs = (ret, request)"
  using assms by (simp add: cond_do_regex_def Let_def)

theorem cond_do_regex_error_frame_witness:
  "cond_do_regex ex_env (ex_request []) (ex_regex_map ''('') (Some (ex_box ''foo'')) None = (- 1, ex_request [])
   \<and> regex_captures (ex_request []) = [''old'']"
  using cond_do_regex_error_frame[of "ex_box ''foo''" ex_env "ex_regex_map ''(''" None "''(''" "- 1" "[]" "ex_request []"]
  by (simp add: ex_regex_map_def ex_simps cond_do_regex_preg_def)

end
